theory Spec2Isabelle
  imports Main "HOL-Library.Word" "HOL-Library.Sublist"
begin

section \<open>JavaScript strings\<close>

text \<open>
  A JavaScript string is a finite sequence of 16-bit code units.  Every string of
  \<^verbatim>\<open>src/App.jsx\<close> that the claims are about (the keywords, the canned replies, the
  theme names) is ASCII, and is written here with \<open>js\<close> applied to a literal.
\<close>

type_synonym jsstring = "16 word list"

definition js :: "string \<Rightarrow> jsstring" where
  "js s = map of_char s"

text \<open>
  \<^verbatim>\<open>String.prototype.trim\<close> removes the leading and the trailing run of white space and
  line terminators; these are the code units listed by ECMAScript (TAB, LF, VT, FF, CR,
  SP, NBSP, the Unicode space separators, LS, PS and the byte order mark).
\<close>

definition isWhiteSpace :: "16 word \<Rightarrow> bool" where
  "isWhiteSpace c \<longleftrightarrow>
     c = 0x0009 \<or> c = 0x000A \<or> c = 0x000B \<or> c = 0x000C \<or> c = 0x000D \<or> c = 0x0020 \<or>
     c = 0x00A0 \<or> c = 0x1680 \<or> (0x2000 \<le> c \<and> c \<le> 0x200A) \<or> c = 0x2028 \<or>
     c = 0x2029 \<or> c = 0x202F \<or> c = 0x205F \<or> c = 0x3000 \<or> c = 0xFEFF"

definition trim :: "jsstring \<Rightarrow> jsstring" where
  "trim s = rev (dropWhile isWhiteSpace (rev (dropWhile isWhiteSpace s)))"

text \<open>
  \<^verbatim>\<open>String.prototype.toLowerCase\<close> maps the string code point by code point.  On the
  ASCII code units it is the map of \<open>A..Z\<close> to \<open>a..z\<close>, whatever surrounds them.  What
  it yields for a code unit outside ASCII comes from the Unicode tables (which may look
  at the context, as for the final sigma, and at the other half of a surrogate pair);
  those tables are the parameter \<open>U\<close>: \<open>U w i\<close> is the output contributed by the code
  unit at index \<open>i\<close> of the whole string \<open>w\<close>.
\<close>

type_synonym unicode_lowering = "jsstring \<Rightarrow> nat \<Rightarrow> jsstring"

definition asciiLower :: "16 word \<Rightarrow> 16 word" where
  "asciiLower c = (if 0x41 \<le> c \<and> c \<le> 0x5A then c + 0x20 else c)"

fun lowerFrom :: "unicode_lowering \<Rightarrow> jsstring \<Rightarrow> nat \<Rightarrow> jsstring \<Rightarrow> jsstring" where
  "lowerFrom U w i [] = []"
| "lowerFrom U w i (c # cs) =
     (if c < 0x80 then [asciiLower c] else U w i) @ lowerFrom U w (Suc i) cs"

definition toLowerCase :: "unicode_lowering \<Rightarrow> jsstring \<Rightarrow> jsstring" where
  "toLowerCase U s = lowerFrom U s 0 s"

text \<open>
  \<^verbatim>\<open>s.includes(k)\<close> searches \<open>s\<close> from position 0 for an index at which \<open>k\<close> occurs,
  comparing code units.
\<close>

fun includes_js :: "jsstring \<Rightarrow> jsstring \<Rightarrow> bool" where
  "includes_js [] k = (k = [])"
| "includes_js (c # cs) k = (prefix k (c # cs) \<or> includes_js cs k)"

section \<open>The chatbot's reply\<close>

text \<open>The four string literals assigned to \<^verbatim>\<open>response\<close> in \<^verbatim>\<open>handleSend\<close>.\<close>

definition clarifyReply :: jsstring where
  "clarifyReply = js ''Can you clarify your question? I'm here to help!''"

definition processReply :: jsstring where
  "processReply = js ''Selling is easy! Upload your license details, get a fair valuation, and receive payment within 48 hours.''"

definition valuationReply :: jsstring where
  "valuationReply = js ''Valuations depend on the license type and market demand. Slug your license for a free quote!''"

definition securityReply :: jsstring where
  "securityReply = js ''All transactions are encrypted and follow strict privacy protocols.''"

text \<open>
  The body of the deferred callback of \<^verbatim>\<open>handleSend\<close>, as a function of the \<^verbatim>\<open>input\<close>
  it closes over: the value of the variable \<^verbatim>\<open>response\<close> when the callback appends it.
  (The specification calls this function \<^verbatim>\<open>selectReply\<close>.)
\<close>

definition response :: "unicode_lowering \<Rightarrow> jsstring \<Rightarrow> jsstring" where
  "response U input =
     (if includes_js (toLowerCase U input) (js ''how'') then processReply
      else if includes_js (toLowerCase U input) (js ''price'')
            \<or> includes_js (toLowerCase U input) (js ''cost'') then valuationReply
      else if includes_js (toLowerCase U input) (js ''safe'')
            \<or> includes_js (toLowerCase U input) (js ''secure'') then securityReply
      else clarifyReply)"

text \<open>
  The selection algorithm in the words of the specification: the rules are tried in
  order, the first whose keyword occurs in the lowercased utterance wins, and the
  clarification request is the fallback.  ``Occurs in'' is the mathematical notion
  \<^const>\<open>sublist\<close>: \<open>sublist k s\<close> holds iff \<open>s = ps @ k @ ss\<close> for some \<open>ps\<close>, \<open>ss\<close>.
\<close>

definition spec_selectReply :: "unicode_lowering \<Rightarrow> jsstring \<Rightarrow> jsstring" where
  "spec_selectReply U utterance =
     (let l = toLowerCase U utterance in
      if sublist (js ''how'') l then processReply
      else if sublist (js ''price'') l \<or> sublist (js ''cost'') l then valuationReply
      else if sublist (js ''safe'') l \<or> sublist (js ''secure'') l then securityReply
      else clarifyReply)"

section \<open>The page: component state, timers, events\<close>

datatype sender = User | Bot

record turn =
  text_msg :: jsstring
  sender :: sender

record formData =
  name :: jsstring
  email :: jsstring
  company :: jsstring
  licenseType :: jsstring
  message :: jsstring

text \<open>
  The two functions handed to \<^verbatim>\<open>setTimeout\<close>.  The chatbot's closes over the \<^verbatim>\<open>input\<close> of
  the render in which \<^verbatim>\<open>handleSend\<close> ran; the form's closes over nothing that changes.
\<close>

datatype callback = BotReply jsstring | HideToast

record timer =
  timerId :: nat
  due :: nat
  callback :: callback

text \<open>
  The state of the page.  \<open>isOpen\<close>, \<open>messages\<close> and \<open>input\<close> are the state of
  \<^verbatim>\<open>Chatbot\<close>; \<open>theme\<close>, \<open>showToast\<close> and \<open>formData\<close> are the state of \<^verbatim>\<open>App\<close>.
  The rest is the browser: the clock in milliseconds, the pending timers in the order
  of their \<^verbatim>\<open>setTimeout\<close> calls with the identifier the next call will return, and
  the lines written by \<^verbatim>\<open>console.log\<close>.  \<open>selectorLog\<close> is an observer added for the
  verification: every run of the reply selection appends the identifier of the timer
  that ran it and the utterance it was applied to.
\<close>

record page =
  isOpen :: bool
  messages :: "turn list"
  input :: jsstring
  theme :: jsstring
  showToast :: bool
  formData :: formData
  now :: nat
  nextTimerId :: nat
  timers :: "timer list"
  console :: "string list"
  selectorLog :: "(nat \<times> jsstring) list"

definition emptyForm :: formData where
  "emptyForm = \<lparr>name = [], email = [], company = [], licenseType = [], message = []\<rparr>"

text \<open>The text of the turn the history starts with.\<close>

definition greeting :: jsstring where
  "greeting = js ''Hi! I'm here to help you sell your software licenses. What's your question?''"

definition initialPage :: page where
  "initialPage =
     \<lparr>isOpen = False,
      messages = [\<lparr>text_msg = greeting, sender = Bot\<rparr>],
      input = [],
      theme = js ''light'',
      showToast = False,
      formData = emptyForm,
      now = 0,
      nextTimerId = 1,
      timers = [],
      console = [],
      selectorLog = []\<rparr>"

definition setTimeout :: "callback \<Rightarrow> nat \<Rightarrow> page \<Rightarrow> page" where
  "setTimeout f delay s =
     s\<lparr>timers := timers s @ [\<lparr>timerId = nextTimerId s, due = now s + delay, callback = f\<rparr>],
       nextTimerId := Suc (nextTimerId s)\<rparr>"

text \<open>\<^verbatim>\<open>Chatbot.handleSend\<close>.\<close>

definition handleSend :: "page \<Rightarrow> page" where
  "handleSend s =
     (if trim (input s) = [] then s
      else (setTimeout (BotReply (input s)) 600
              (s\<lparr>messages := messages s @ [\<lparr>text_msg = input s, sender = User\<rparr>]\<rparr>))
           \<lparr>input := []\<rparr>)"

text \<open>\<^verbatim>\<open>App.toggleTheme\<close>, \<^verbatim>\<open>App.handleSubmit\<close> and \<^verbatim>\<open>App.handleInputChange\<close>.\<close>

definition toggleTheme :: "page \<Rightarrow> page" where
  "toggleTheme s = s\<lparr>theme := (if theme s = js ''light'' then js ''dark'' else js ''light'')\<rparr>"

definition handleSubmit :: "page \<Rightarrow> page" where
  "handleSubmit s =
     setTimeout HideToast 3000
       (s\<lparr>console := console s @ [''Form submitted, showing success toast''],
          showToast := True,
          formData := emptyForm\<rparr>)"

datatype field = Name | Email | Company | LicenseType | Message

fun setField :: "field \<Rightarrow> jsstring \<Rightarrow> formData \<Rightarrow> formData" where
  "setField Name v d = d\<lparr>name := v\<rparr>"
| "setField Email v d = d\<lparr>email := v\<rparr>"
| "setField Company v d = d\<lparr>company := v\<rparr>"
| "setField LicenseType v d = d\<lparr>licenseType := v\<rparr>"
| "setField Message v d = d\<lparr>message := v\<rparr>"

definition handleInputChange :: "field \<Rightarrow> jsstring \<Rightarrow> page \<Rightarrow> page" where
  "handleInputChange f v s = s\<lparr>formData := setField f v (formData s)\<rparr>"

text \<open>Running the callback of a timer that has come due.\<close>

fun runCallback :: "unicode_lowering \<Rightarrow> timer \<Rightarrow> page \<Rightarrow> page" where
  "runCallback U t s =
     (case callback t of
        BotReply captured \<Rightarrow>
          s\<lparr>messages := messages s @ [\<lparr>text_msg = response U captured, sender = Bot\<rparr>],
            selectorLog := selectorLog s @ [(timerId t, captured)]\<rparr>
      | HideToast \<Rightarrow>
          s\<lparr>console := console s @ [''Hiding success toast''], showToast := False\<rparr>)"

text \<open>
  The passage of \<open>d\<close> milliseconds: the timers that have come due run, earliest first
  and in the order of their \<^verbatim>\<open>setTimeout\<close> calls when due together, and leave the
  queue.  No callback of this page reads the clock or sets a timer, so the clock is
  advanced first.
\<close>

definition elapse :: "unicode_lowering \<Rightarrow> nat \<Rightarrow> page \<Rightarrow> page" where
  "elapse U d s =
     (let t = now s + d;
          fired = sort_key due (filter (\<lambda>x. due x \<le> t) (timers s));
          pending = filter (\<lambda>x. \<not> due x \<le> t) (timers s)
      in fold (runCallback U) fired (s\<lparr>now := t, timers := pending\<rparr>))"

text \<open>
  The events of the page: the handlers bound in the JSX, and the passage of time.
  \<open>ToastClose\<close> is the \<^verbatim>\<open>onClose\<close> of the toast, which the toast component calls when
  its close button is pressed or its own \<^verbatim>\<open>autohide\<close> delay runs out.
\<close>

datatype event =
    ChatToggle
  | ChatInput jsstring
  | ChatSubmit
  | ThemeToggle
  | FormInput field jsstring
  | FormSubmit
  | ToastClose
  | Elapse nat

fun step :: "unicode_lowering \<Rightarrow> event \<Rightarrow> page \<Rightarrow> page" where
  "step U ChatToggle s = s\<lparr>isOpen := \<not> isOpen s\<rparr>"
| "step U (ChatInput v) s = s\<lparr>input := v\<rparr>"
| "step U ChatSubmit s = handleSend s"
| "step U ThemeToggle s = toggleTheme s"
| "step U (FormInput f v) s = handleInputChange f v s"
| "step U FormSubmit s = handleSubmit s"
| "step U ToastClose s = s\<lparr>showToast := False\<rparr>"
| "step U (Elapse d) s = elapse U d s"

definition run :: "unicode_lowering \<Rightarrow> event list \<Rightarrow> page \<Rightarrow> page" where
  "run U es s = fold (step U) es s"

section \<open>Auxiliary notions for the proofs\<close>

text \<open>What one timer adds to the history and to the selector log when it runs.\<close>

definition replied :: "unicode_lowering \<Rightarrow> timer \<Rightarrow> turn list" where
  "replied U t =
     (case callback t of
        BotReply u \<Rightarrow> [\<lparr>text_msg = response U u, sender = Bot\<rparr>]
      | HideToast \<Rightarrow> [])"

definition logged :: "timer \<Rightarrow> (nat \<times> jsstring) list" where
  "logged t = (case callback t of BotReply u \<Rightarrow> [(timerId t, u)] | HideToast \<Rightarrow> [])"

text \<open>
  Timer identifiers are handed out in increasing order: in every state the page can
  reach, the pending timers and the log entries carry identifiers below the next one.
\<close>

definition idsBelow :: "page \<Rightarrow> bool" where
  "idsBelow s \<longleftrightarrow>
     (\<forall>t \<in> set (timers s). timerId t < nextTimerId s) \<and>
     (\<forall>e \<in> set (selectorLog s). fst e < nextTimerId s)"

text \<open>
  The life of the timer \<open>t\<close> that carries the reply to the utterance \<open>u\<close>: before it
  is due it is pending, once, and has not run; from then on it is gone from the queue
  and has run exactly once, on \<open>u\<close>, and its reply is in the history.
\<close>

definition oneShot :: "unicode_lowering \<Rightarrow> timer \<Rightarrow> jsstring \<Rightarrow> page \<Rightarrow> bool" where
  "oneShot U t u s \<longleftrightarrow>
     timerId t < nextTimerId s \<and>
     (\<forall>x \<in> set (timers s). timerId x < nextTimerId s) \<and>
     (if now s < due t
      then filter (\<lambda>x. timerId x = timerId t) (timers s) = [t] \<and>
           filter (\<lambda>e. fst e = timerId t) (selectorLog s) = []
      else filter (\<lambda>x. timerId x = timerId t) (timers s) = [] \<and>
           filter (\<lambda>e. fst e = timerId t) (selectorLog s) = [(timerId t, u)] \<and>
           \<lparr>text_msg = response U u, sender = Bot\<rparr> \<in> set (messages s))"

text \<open>
  A Unicode table for the concrete examples: it leaves every code unit outside ASCII
  as it is.
\<close>

definition keepUnicode :: unicode_lowering where
  "keepUnicode w i = [w ! i]"

section \<open>Strings: containment and lowering\<close>

lemma includes_js_sublist: "includes_js s k \<longleftrightarrow> sublist k s"
  by (induction s) (simp_all add: sublist_Cons_right)

lemma lowerFrom_append:
  "lowerFrom U w i (xs @ ys) = lowerFrom U w i xs @ lowerFrom U w (i + length xs) ys"
  by (induction xs arbitrary: i) simp_all

lemma lowerFrom_how:
  assumes "a \<in> set (js ''hH'')" "b \<in> set (js ''oO'')" "c \<in> set (js ''wW'')"
  shows "lowerFrom U x i [a, b, c] = js ''how''"
proof -
  from assms(1) have a: "a < 0x80 \<and> asciiLower a = 0x68" by (auto simp: js_def asciiLower_def)
  from assms(2) have b: "b < 0x80 \<and> asciiLower b = 0x6F" by (auto simp: js_def asciiLower_def)
  from assms(3) have c: "c < 0x80 \<and> asciiLower c = 0x77" by (auto simp: js_def asciiLower_def)
  show ?thesis using a b c by (simp add: js_def)
qed

section \<open>The effect of the handlers on each component of the state\<close>

lemma runCallback_fields [simp]:
  "isOpen (runCallback U t s) = isOpen s"
  "input (runCallback U t s) = input s"
  "theme (runCallback U t s) = theme s"
  "formData (runCallback U t s) = formData s"
  "now (runCallback U t s) = now s"
  "nextTimerId (runCallback U t s) = nextTimerId s"
  "timers (runCallback U t s) = timers s"
  "messages (runCallback U t s) = messages s @ replied U t"
  "selectorLog (runCallback U t s) = selectorLog s @ logged t"
  "showToast (runCallback U t s) = (showToast s \<and> callback t \<noteq> HideToast)"
  by (simp_all add: replied_def logged_def split: callback.splits)

declare runCallback.simps [simp del]

lemma fold_runCallback_fields [simp]:
  "isOpen (fold (runCallback U) L s) = isOpen s"
  "input (fold (runCallback U) L s) = input s"
  "theme (fold (runCallback U) L s) = theme s"
  "formData (fold (runCallback U) L s) = formData s"
  "now (fold (runCallback U) L s) = now s"
  "nextTimerId (fold (runCallback U) L s) = nextTimerId s"
  "timers (fold (runCallback U) L s) = timers s"
  by (induction L arbitrary: s; simp)+

lemma fold_runCallback_messages:
  "messages (fold (runCallback U) L s) = messages s @ concat (map (replied U) L)"
  by (induction L arbitrary: s) simp_all

lemma fold_runCallback_selectorLog:
  "selectorLog (fold (runCallback U) L s) = selectorLog s @ concat (map logged L)"
  by (induction L arbitrary: s) simp_all

lemma fold_runCallback_showToast:
  "showToast (fold (runCallback U) L s) = (showToast s \<and> HideToast \<notin> callback ` set L)"
  by (induction L arbitrary: s) auto

lemma setTimeout_fields [simp]:
  "isOpen (setTimeout f d s) = isOpen s"
  "input (setTimeout f d s) = input s"
  "theme (setTimeout f d s) = theme s"
  "formData (setTimeout f d s) = formData s"
  "now (setTimeout f d s) = now s"
  "messages (setTimeout f d s) = messages s"
  "selectorLog (setTimeout f d s) = selectorLog s"
  "showToast (setTimeout f d s) = showToast s"
  "console (setTimeout f d s) = console s"
  "nextTimerId (setTimeout f d s) = Suc (nextTimerId s)"
  "timers (setTimeout f d s) = timers s @ [\<lparr>timerId = nextTimerId s, due = now s + d, callback = f\<rparr>]"
  by (simp_all add: setTimeout_def)

lemma elapse_fields [simp]:
  "isOpen (elapse U d s) = isOpen s"
  "input (elapse U d s) = input s"
  "theme (elapse U d s) = theme s"
  "formData (elapse U d s) = formData s"
  "now (elapse U d s) = now s + d"
  "nextTimerId (elapse U d s) = nextTimerId s"
  "timers (elapse U d s) = filter (\<lambda>x. \<not> due x \<le> now s + d) (timers s)"
  by (simp_all add: elapse_def Let_def)

lemma elapse_messages:
  "messages (elapse U d s) =
     messages s @ concat (map (replied U) (sort_key due (filter (\<lambda>x. due x \<le> now s + d) (timers s))))"
  by (simp add: elapse_def Let_def fold_runCallback_messages)

lemma elapse_selectorLog:
  "selectorLog (elapse U d s) =
     selectorLog s @ concat (map logged (sort_key due (filter (\<lambda>x. due x \<le> now s + d) (timers s))))"
  by (simp add: elapse_def Let_def fold_runCallback_selectorLog)

lemma elapse_showToast:
  "showToast (elapse U d s) =
     (showToast s \<and> HideToast \<notin> callback ` {x \<in> set (timers s). due x \<le> now s + d})"
  by (simp add: elapse_def Let_def fold_runCallback_showToast)

lemma step_messages: "\<exists>ts. messages (step U e s) = messages s @ ts"
  by (cases e) (simp_all add: handleSend_def toggleTheme_def handleInputChange_def handleSubmit_def elapse_messages)

lemma run_append: "run U (es @ es') s = run U es' (run U es s)"
  by (simp add: run_def)

lemma run_messages: "prefix (messages s) (messages (run U es s))"
proof (induction es arbitrary: s)
  case Nil
  show ?case by (simp add: run_def)
next
  case (Cons e es)
  obtain ts where "messages (step U e s) = messages s @ ts"
    using step_messages by blast
  then have "prefix (messages s) (messages (step U e s))" by simp
  also have "prefix (messages (step U e s)) (messages (run U (e # es) s))"
    using Cons.IH [of "step U e s"] by (simp add: run_def)
  finally show ?case .
qed

lemma trim_Nil_iff: "trim u = [] \<longleftrightarrow> (\<forall>c \<in> set u. isWhiteSpace c)"
proof
  assume "\<forall>c \<in> set u. isWhiteSpace c"
  then have "dropWhile isWhiteSpace u = []" by simp
  then show "trim u = []" by (simp only: trim_def rev.simps dropWhile.simps)
next
  assume "trim u = []"
  then have all: "\<forall>c \<in> set (dropWhile isWhiteSpace u). isWhiteSpace c"
    by (simp add: trim_def)
  have "dropWhile isWhiteSpace u = []"
  proof (rule ccontr)
    assume ne: "dropWhile isWhiteSpace u \<noteq> []"
    then have "\<not> isWhiteSpace (hd (dropWhile isWhiteSpace u))" by (rule hd_dropWhile)
    moreover have "hd (dropWhile isWhiteSpace u) \<in> set (dropWhile isWhiteSpace u)"
      using ne by simp
    ultimately show False using all by blast
  qed
  then show "\<forall>c \<in> set u. isWhiteSpace c" by simp
qed

lemma handleSend_fields [simp]:
  "trim (input s) \<noteq> [] \<Longrightarrow> messages (handleSend s) = messages s @ [\<lparr>text_msg = input s, sender = User\<rparr>]"
  "trim (input s) \<noteq> [] \<Longrightarrow> timers (handleSend s) = timers s @ [\<lparr>timerId = nextTimerId s, due = now s + 600, callback = BotReply (input s)\<rparr>]"
  "trim (input s) \<noteq> [] \<Longrightarrow> nextTimerId (handleSend s) = Suc (nextTimerId s)"
  "trim (input s) \<noteq> [] \<Longrightarrow> input (handleSend s) = []"
  "selectorLog (handleSend s) = selectorLog s"
  "now (handleSend s) = now s"
  "theme (handleSend s) = theme s"
  "showToast (handleSend s) = showToast s"
  "formData (handleSend s) = formData s"
  "isOpen (handleSend s) = isOpen s"
  by (simp_all add: handleSend_def)

lemma handleSubmit_fields [simp]:
  "messages (handleSubmit s) = messages s"
  "timers (handleSubmit s) = timers s @ [\<lparr>timerId = nextTimerId s, due = now s + 3000, callback = HideToast\<rparr>]"
  "nextTimerId (handleSubmit s) = Suc (nextTimerId s)"
  "input (handleSubmit s) = input s"
  "selectorLog (handleSubmit s) = selectorLog s"
  "now (handleSubmit s) = now s"
  "theme (handleSubmit s) = theme s"
  "showToast (handleSubmit s) = True"
  "formData (handleSubmit s) = emptyForm"
  "isOpen (handleSubmit s) = isOpen s"
  by (simp_all add: handleSubmit_def)

lemma filter_concat_logged:
  "filter (\<lambda>e. fst e = i) (concat (map logged L)) = concat (map logged (filter (\<lambda>x. timerId x = i) L))"
  by (induction L) (auto simp: logged_def split: callback.splits)

lemma idsBelow_initial: "idsBelow initialPage"
  by (simp add: idsBelow_def initialPage_def)

lemma idsBelow_step: "idsBelow s \<Longrightarrow> idsBelow (step U e s)"
proof (cases e)
  case ChatSubmit
  assume "idsBelow s"
  then show ?thesis using ChatSubmit
    by (cases "trim (input s) = []") (auto simp: idsBelow_def handleSend_def less_Suc_eq)
next
  case FormSubmit
  assume "idsBelow s"
  then show ?thesis using FormSubmit by (auto simp: idsBelow_def less_Suc_eq)
next
  case (Elapse d)
  assume "idsBelow s"
  then show ?thesis using Elapse
    by (auto simp: idsBelow_def elapse_selectorLog logged_def split: callback.splits)
qed (auto simp: idsBelow_def toggleTheme_def handleInputChange_def)

lemma idsBelow_run: "idsBelow s \<Longrightarrow> idsBelow (run U es s)"
  by (induction es arbitrary: s) (simp_all add: run_def idsBelow_step)

lemma filter_fresh: "\<forall>x \<in> set xs. f x < (n::nat) \<Longrightarrow> filter (\<lambda>x. f x = n) xs = []"
  by (auto simp: filter_empty_conv)

lemma oneShot_handleSend:
  assumes "idsBelow s" "trim (input s) \<noteq> []"
  shows "oneShot U \<lparr>timerId = nextTimerId s, due = now s + 600, callback = BotReply (input s)\<rparr> (input s) (handleSend s)"
  using assms
  by (auto simp: oneShot_def idsBelow_def filter_fresh less_Suc_eq)

section \<open>A timer runs once, when it is due\<close>

lemma elapse_timers_by_id:
  "filter (\<lambda>x. timerId x = i) (timers (elapse U d s)) =
     filter (\<lambda>x. \<not> due x \<le> now s + d) (filter (\<lambda>x. timerId x = i) (timers s))"
  by (simp add: conj_commute)

lemma elapse_selectorLog_by_id:
  "filter (\<lambda>e. fst e = i) (selectorLog (elapse U d s)) =
     filter (\<lambda>e. fst e = i) (selectorLog s) @
     concat (map logged (sort_key due
       (filter (\<lambda>x. due x \<le> now s + d) (filter (\<lambda>x. timerId x = i) (timers s)))))"
  by (simp add: elapse_selectorLog filter_concat_logged filter_sort conj_commute)

lemma oneShot_elapse:
  assumes cb: "callback t = BotReply u" and inv: "oneShot U t u s"
  shows "oneShot U t u (elapse U d s)"
proof -
  from inv have ids: "timerId t < nextTimerId s" "\<forall>x \<in> set (timers s). timerId x < nextTimerId s"
    by (simp_all add: oneShot_def)
  show ?thesis
  proof (cases "now s < due t")
    case pending: True
    with inv have q: "filter (\<lambda>x. timerId x = timerId t) (timers s) = [t]"
      and l: "filter (\<lambda>e. fst e = timerId t) (selectorLog s) = []"
      by (simp_all add: oneShot_def)
    show ?thesis
    proof (cases "now s + d < due t")
      case True
      have a: "filter (\<lambda>x. timerId x = timerId t) (timers (elapse U d s)) = [t]"
        by (subst elapse_timers_by_id) (use True in \<open>simp add: q not_le\<close>)
      have b: "filter (\<lambda>e. fst e = timerId t) (selectorLog (elapse U d s)) = []"
        by (subst elapse_selectorLog_by_id) (use True in \<open>simp add: q l not_le\<close>)
      show ?thesis using ids True a b
        by (simp add: oneShot_def)
    next
      case False
      have "t \<in> set (filter (\<lambda>x. timerId x = timerId t) (timers s))" by (simp only: q list.set_intros)
      then have "t \<in> set (timers s)" by simp
      with False have "t \<in> set (sort_key due (filter (\<lambda>x. due x \<le> now s + d) (timers s)))"
        by simp
      then have "set (replied U t) \<subseteq> set (messages (elapse U d s))"
        by (auto simp: elapse_messages)
      then have c: "\<lparr>text_msg = response U u, sender = Bot\<rparr> \<in> set (messages (elapse U d s))"
        by (simp add: replied_def cb)
      have a: "filter (\<lambda>x. timerId x = timerId t) (timers (elapse U d s)) = []"
        by (subst elapse_timers_by_id) (use False in \<open>simp add: q not_less\<close>)
      have b: "filter (\<lambda>e. fst e = timerId t) (selectorLog (elapse U d s)) = [(timerId t, u)]"
        by (subst elapse_selectorLog_by_id) (use False in \<open>simp add: q l logged_def cb not_less\<close>)
      show ?thesis using ids False a b c
        by (simp add: oneShot_def)
    qed
  next
    case fired: False
    with inv have q: "filter (\<lambda>x. timerId x = timerId t) (timers s) = []"
      and l: "filter (\<lambda>e. fst e = timerId t) (selectorLog s) = [(timerId t, u)]"
      and m: "\<lparr>text_msg = response U u, sender = Bot\<rparr> \<in> set (messages s)"
      by (simp_all add: oneShot_def)
    have a: "filter (\<lambda>x. timerId x = timerId t) (timers (elapse U d s)) = []"
      by (subst elapse_timers_by_id) (simp add: q)
    have b: "filter (\<lambda>e. fst e = timerId t) (selectorLog (elapse U d s)) = [(timerId t, u)]"
      by (subst elapse_selectorLog_by_id) (simp add: q l)
    have c: "\<lparr>text_msg = response U u, sender = Bot\<rparr> \<in> set (messages (elapse U d s))"
      using m by (simp add: elapse_messages)
    show ?thesis using ids fired a b c
      by (simp add: oneShot_def)
  qed
qed

lemma oneShot_step:
  assumes cb: "callback t = BotReply u" and inv: "oneShot U t u s"
  shows "oneShot U t u (step U e s)"
proof (cases e)
  case ChatSubmit
  show ?thesis
  proof (cases "trim (input s) = []")
    case True
    then show ?thesis using inv ChatSubmit by (simp add: handleSend_def)
  next
    case False
    then show ?thesis using inv ChatSubmit
      by (auto simp: oneShot_def less_Suc_eq split: if_splits)
  qed
next
  case FormSubmit
  then show ?thesis using inv
    by (auto simp: oneShot_def less_Suc_eq split: if_splits)
next
  case (Elapse d)
  then show ?thesis using oneShot_elapse [OF cb inv] by simp
qed (use inv in \<open>simp_all add: oneShot_def toggleTheme_def handleInputChange_def\<close>)

lemma oneShot_run:
  "callback t = BotReply u \<Longrightarrow> oneShot U t u s \<Longrightarrow> oneShot U t u (run U es s)"
  by (induction es arbitrary: s) (simp_all add: run_def oneShot_step)

lemma pending_step:
  assumes "t \<in> set (timers s) \<or> due t \<le> now s"
  shows "t \<in> set (timers (step U e s)) \<or> due t \<le> now (step U e s)"
proof (cases e)
  case ChatSubmit
  then show ?thesis using assms by (cases "trim (input s) = []") (auto simp: handleSend_def)
next
  case (Elapse d)
  then show ?thesis using assms by auto
qed (use assms in \<open>auto simp: toggleTheme_def handleInputChange_def\<close>)

lemma pending_run:
  "t \<in> set (timers s) \<or> due t \<le> now s \<Longrightarrow>
   t \<in> set (timers (run U es s)) \<or> due t \<le> now (run U es s)"
  by (induction es arbitrary: s) (simp_all add: run_def pending_step)

lemma hide_elapse:
  "t \<in> set (timers s) \<Longrightarrow> callback t = HideToast \<Longrightarrow> due t \<le> now s + d \<Longrightarrow>
   \<not> showToast (elapse U d s)"
  by (force simp: elapse_showToast)

lemma light_neq_dark: "js ''light'' \<noteq> js ''dark''"
  by (simp add: js_def)

lemma theme_step:
  "theme s \<in> {js ''light'', js ''dark''} \<Longrightarrow> theme (step U e s) \<in> {js ''light'', js ''dark''}"
  by (cases e) (auto simp: handleSend_def toggleTheme_def handleInputChange_def)

lemma theme_run:
  "theme s \<in> {js ''light'', js ''dark''} \<Longrightarrow> theme (run U es s) \<in> {js ''light'', js ''dark''}"
  by (induction es arbitrary: s) (simp_all add: run_def theme_step del: insert_iff)

lemma toggleTheme_twice:
  "theme s \<in> {js ''light'', js ''dark''} \<Longrightarrow> toggleTheme (toggleTheme s) = s"
  by (auto simp: toggleTheme_def light_neq_dark)

section \<open>The bot turns of the history are the replies that were selected\<close>

lemma replied_logged:
  "map text_msg (filter (\<lambda>m. sender m = Bot) (concat (map (replied U) L))) =
   map (\<lambda>e. response U (snd e)) (concat (map logged L))"
  by (induction L) (auto simp: replied_def logged_def split: callback.splits)

lemma botTurns_step:
  assumes "map text_msg (filter (\<lambda>m. sender m = Bot) (messages s)) =
           g # map (\<lambda>e. response U (snd e)) (selectorLog s)"
  shows "map text_msg (filter (\<lambda>m. sender m = Bot) (messages (step U e s))) =
         g # map (\<lambda>e. response U (snd e)) (selectorLog (step U e s))"
proof (cases e)
  case ChatSubmit
  then show ?thesis using assms by (cases "trim (input s) = []") (simp_all add: handleSend_def)
next
  case (Elapse d)
  then show ?thesis using assms
    by (simp add: elapse_messages elapse_selectorLog replied_logged)
qed (use assms in \<open>simp_all add: toggleTheme_def handleInputChange_def\<close>)

lemma botTurns_run:
  "map text_msg (filter (\<lambda>m. sender m = Bot) (messages s)) =
     g # map (\<lambda>e. response U (snd e)) (selectorLog s) \<Longrightarrow>
   map text_msg (filter (\<lambda>m. sender m = Bot) (messages (run U es s))) =
     g # map (\<lambda>e. response U (snd e)) (selectorLog (run U es s))"
  by (induction es arbitrary: s) (simp_all add: run_def botTurns_step)

lemma botTurns_initial:
  "map text_msg (filter (\<lambda>m. sender m = Bot) (messages initialPage)) =
     greeting # map (\<lambda>e. response U (snd e)) (selectorLog initialPage)"
  by (simp add: initialPage_def)

section \<open>The claims\<close>

text \<open>
  C1.  For every utterance the reply computed by the code is the reply of the
  specification's algorithm: the rules are applied in order, the first match wins, and
  a rule matches when its keyword occurs as a substring of the lowercased utterance;
  ``how'' gives the process explanation, else ``price'' or ``cost'' the valuation
  explanation, else ``safe'' or ``secure'' the security assurance, else the generic
  clarification request.
\<close>

theorem response_refines_spec: "response U u = spec_selectReply U u"
  by (simp add: response_def spec_selectReply_def Let_def includes_js_sublist)

text \<open>
  C2.  The reply selection is total: \<open>response\<close> is a function defined on every
  string, built from structurally recursive functions, and has no failing branch.  Its
  value is always one of the four fixed replies, which are four different strings.  On
  the empty string and on a string of blanks it is the clarification request.
\<close>

theorem response_one_of_four:
  "response U u \<in> {processReply, valuationReply, securityReply, clarifyReply} \<and>
   distinct [processReply, valuationReply, securityReply, clarifyReply] \<and>
   response U [] = clarifyReply \<and> response U (js ''   '') = clarifyReply"
proof -
  have "response U u \<in> {processReply, valuationReply, securityReply, clarifyReply}"
    by (simp add: response_def)
  moreover have "distinct [processReply, valuationReply, securityReply, clarifyReply]"
    by (simp add: processReply_def valuationReply_def securityReply_def clarifyReply_def js_def)
  moreover have "response U [] = clarifyReply" "response U (js ''   '') = clarifyReply"
    by (simp_all add: response_def toLowerCase_def js_def asciiLower_def)
  ultimately show ?thesis by (intro conjI)
qed

text \<open>
  C3.  An utterance that contains ``how'' at any position, each of the three letters in
  either case, gets the process explanation.  No rule comes before this one, so nothing
  is excluded.
\<close>

theorem response_how:
  assumes "a \<in> set (js ''hH'')" "b \<in> set (js ''oO'')" "c \<in> set (js ''wW'')"
    and "u = pre @ [a, b, c] @ post"
  shows "response U u = processReply"
proof -
  have "toLowerCase U (pre @ [a, b, c] @ post) =
      lowerFrom U (pre @ [a, b, c] @ post) 0 pre @ js ''how''
        @ lowerFrom U (pre @ [a, b, c] @ post) (0 + length pre + length [a, b, c]) post"
    unfolding toLowerCase_def
    by (simp only: lowerFrom_append lowerFrom_how [OF assms(1-3)] add.assoc)
  then have "sublist (js ''how'') (toLowerCase U u)"
    by (simp only: sublist_appendI assms(4))
  then show ?thesis
    by (simp add: response_def includes_js_sublist)
qed

theorem response_how_witness:
  "of_char CHR ''H'' \<in> set (js ''hH'') \<and> of_char CHR ''o'' \<in> set (js ''oO'') \<and>
   of_char CHR ''W'' \<in> set (js ''wW'') \<and>
   js ''Show me HoW it works'' =
     js ''Show me '' @ [of_char CHR ''H'', of_char CHR ''o'', of_char CHR ''W''] @ js '' it works'' \<and>
   response keepUnicode (js ''Show me HoW it works'') = processReply"
proof -
  have 1: "of_char CHR ''H'' \<in> set (js ''hH'')" by (simp add: js_def)
  have 2: "of_char CHR ''o'' \<in> set (js ''oO'')" by (simp add: js_def)
  have 3: "of_char CHR ''W'' \<in> set (js ''wW'')" by (simp add: js_def)
  have 4: "js ''Show me HoW it works'' =
      js ''Show me '' @ [of_char CHR ''H'', of_char CHR ''o'', of_char CHR ''W''] @ js '' it works''"
    by (simp add: js_def)
  have "response keepUnicode (js ''Show me HoW it works'') = processReply"
    by (rule response_how [OF 1 2 3 4])
  with 1 2 3 4 show ?thesis by (intro conjI)
qed

text \<open>
  C4.  The three test vectors: ``What's the price?'' gets the valuation explanation,
  ``Is this Safe?'' (capital S) the security assurance, and ``asdf'' the generic
  clarification request.
\<close>

theorem response_test_vectors:
  "response U (js ''What's the price?'') = valuationReply \<and>
   response U (js ''Is this Safe?'') = securityReply \<and>
   response U (js ''asdf'') = clarifyReply"
  by (simp add: response_def toLowerCase_def js_def asciiLower_def)

text \<open>
  C5.  When the input is empty or consists of white space only, \<^verbatim>\<open>handleSend\<close> returns
  at once: the page is exactly as before.  No turn is recorded, the history is
  unchanged, no callback is scheduled (so the reply selection will not run for this
  submission) and none has run.
\<close>

theorem handleSend_blank_ignored:
  assumes "\<forall>c \<in> set (input s). isWhiteSpace c"
  shows "handleSend s = s \<and> step U ChatSubmit s = s \<and>
         messages (handleSend s) = messages s \<and> timers (handleSend s) = timers s \<and>
         selectorLog (handleSend s) = selectorLog s"
  using assms by (simp add: handleSend_def trim_Nil_iff)

theorem handleSend_blank_ignored_witness:
  "list_all isWhiteSpace (input (initialPage\<lparr>input := js ''   ''\<rparr>)) \<and>
   handleSend (initialPage\<lparr>input := js ''   ''\<rparr>) = initialPage\<lparr>input := js ''   ''\<rparr> \<and>
   messages (handleSend (initialPage\<lparr>input := js ''   ''\<rparr>)) =
     [\<lparr>text_msg = greeting, sender = Bot\<rparr>]"
proof -
  have h: "\<forall>c \<in> set (input (initialPage\<lparr>input := js ''   ''\<rparr>)). isWhiteSpace c"
    by (simp add: js_def isWhiteSpace_def)
  have m: "messages (initialPage\<lparr>input := js ''   ''\<rparr>) = [\<lparr>text_msg = greeting, sender = Bot\<rparr>]"
    by (simp add: initialPage_def)
  from handleSend_blank_ignored [OF h, of keepUnicode]
  have "handleSend (initialPage\<lparr>input := js ''   ''\<rparr>) = initialPage\<lparr>input := js ''   ''\<rparr>"
    by (rule conjunct1)
  with h m show ?thesis
    by (simp only: list_all_iff simp_thms)
qed

text \<open>
  C6.  The reply depends on the utterance alone.  Two runs of the reply callback for
  the same utterance record the same reply, whatever the two states of the page
  (conversation history included) and whichever the timers that run them; and the
  reply is a function of the utterance, so equal utterances have equal replies.
\<close>

theorem response_stateless:
  assumes "u = u'"
  shows "response U u = response U u' \<and>
         last (messages (runCallback U \<lparr>timerId = i, due = d, callback = BotReply u\<rparr> s)) =
         last (messages (runCallback U \<lparr>timerId = i', due = d', callback = BotReply u'\<rparr> s')) \<and>
         last (messages (runCallback U \<lparr>timerId = i, due = d, callback = BotReply u\<rparr> s)) =
         \<lparr>text_msg = response U u, sender = Bot\<rparr>"
  using assms by (simp add: replied_def)

theorem response_stateless_witness:
  "last (messages (runCallback keepUnicode
      \<lparr>timerId = 1, due = 600, callback = BotReply (js ''cost'')\<rparr> initialPage)) =
   last (messages (runCallback keepUnicode
      \<lparr>timerId = 7, due = 9000, callback = BotReply (js ''cost'')\<rparr> (handleSubmit initialPage)))"
  using response_stateless [OF refl, of keepUnicode "js ''cost''" 1 600 initialPage 7 9000
      "handleSubmit initialPage"]
  by blast

text \<open>
  C7.  The history is append-only.  Recording a user turn and recording a bot reply
  each put one new turn at the end of the list, the other callback leaves the list
  alone, and along every sequence of events the history reached earlier is a prefix of
  the history reached later: no turn is edited, moved or removed.
\<close>

theorem messages_append_only:
  "prefix (messages (run U es s)) (messages (run U (es @ es') s)) \<and>
   (trim (input s) \<noteq> [] \<longrightarrow>
      messages (handleSend s) = messages s @ [\<lparr>text_msg = input s, sender = User\<rparr>]) \<and>
   messages (runCallback U \<lparr>timerId = i, due = d, callback = BotReply u\<rparr> s) =
      messages s @ [\<lparr>text_msg = response U u, sender = Bot\<rparr>] \<and>
   messages (runCallback U \<lparr>timerId = i, due = d, callback = HideToast\<rparr> s) = messages s"
  by (simp add: run_append run_messages replied_def)

theorem messages_append_only_witness:
  "trim (input (initialPage\<lparr>input := js ''hi''\<rparr>)) \<noteq> [] \<and>
   messages (handleSend (initialPage\<lparr>input := js ''hi''\<rparr>)) =
     messages (initialPage\<lparr>input := js ''hi''\<rparr>) @ [\<lparr>text_msg = js ''hi'', sender = User\<rparr>]"
proof -
  have h: "trim (input (initialPage\<lparr>input := js ''hi''\<rparr>)) \<noteq> []"
    by (simp add: trim_def js_def isWhiteSpace_def)
  have i: "input (initialPage\<lparr>input := js ''hi''\<rparr>) = js ''hi''" by simp
  show ?thesis
    using h messages_append_only [of keepUnicode "[]" "initialPage\<lparr>input := js ''hi''\<rparr>" "[]" 0 0 "[]"]
    unfolding i by blast
qed

text \<open>
  C8.  Let \<open>s\<close> be a state the page can reach, with an input that is not blank, and let
  \<^verbatim>\<open>handleSend\<close> run.  It schedules exactly one callback \<open>t\<close>, due 600 ms later and
  closed over the submitted input, and does not run the reply selection itself.
  Whatever events follow (further typing and submissions included): as long as the
  600 ms have not passed, \<open>t\<close> is pending, once, and has not run; once they have
  passed, \<open>t\<close> is gone from the queue and the reply selection has run for it exactly
  once, on the submitted input, and the reply to that input is in the history.  No
  event removes a pending timer, and none runs one twice.  Throughout, the bot turns of
  the history are the greeting followed by one reply per run of the reply selection,
  in order.
\<close>

theorem handleSend_one_deferred_reply:
  assumes reach: "s = run U es0 initialPage"
    and nonblank: "trim (input s) \<noteq> []"
    and t: "t = \<lparr>timerId = nextTimerId s, due = now s + 600, callback = BotReply (input s)\<rparr>"
    and s': "s' = run U es (handleSend s)"
  shows "timers (handleSend s) = timers s @ [t] \<and>
         selectorLog (handleSend s) = selectorLog s \<and>
         (if now s' < now s + 600
          then filter (\<lambda>x. timerId x = timerId t) (timers s') = [t] \<and>
               filter (\<lambda>e. fst e = timerId t) (selectorLog s') = []
          else filter (\<lambda>x. timerId x = timerId t) (timers s') = [] \<and>
               filter (\<lambda>e. fst e = timerId t) (selectorLog s') = [(timerId t, input s)] \<and>
               \<lparr>text_msg = response U (input s), sender = Bot\<rparr> \<in> set (messages s')) \<and>
         map text_msg (filter (\<lambda>m. sender m = Bot) (messages s')) =
           greeting # map (\<lambda>e. response U (snd e)) (selectorLog s')"
proof -
  have "idsBelow s"
    unfolding reach by (rule idsBelow_run [OF idsBelow_initial])
  then have "oneShot U t (input s) (handleSend s)"
    unfolding t using nonblank by (rule oneShot_handleSend)
  moreover have "callback t = BotReply (input s)"
    by (simp add: t)
  ultimately have "oneShot U t (input s) s'"
    unfolding s' by (simp add: oneShot_run)
  then have life: "if now s' < due t
          then filter (\<lambda>x. timerId x = timerId t) (timers s') = [t] \<and>
               filter (\<lambda>e. fst e = timerId t) (selectorLog s') = []
          else filter (\<lambda>x. timerId x = timerId t) (timers s') = [] \<and>
               filter (\<lambda>e. fst e = timerId t) (selectorLog s') = [(timerId t, input s)] \<and>
               \<lparr>text_msg = response U (input s), sender = Bot\<rparr> \<in> set (messages s')"
    by (simp add: oneShot_def)
  have "s' = run U (es0 @ [ChatSubmit] @ es) initialPage"
    by (simp add: s' reach run_def)
  then have turns: "map text_msg (filter (\<lambda>m. sender m = Bot) (messages s')) =
           greeting # map (\<lambda>e. response U (snd e)) (selectorLog s')"
    by (simp only: botTurns_run [OF botTurns_initial])
  have "due t = now s + 600" by (simp add: t)
  with life turns show ?thesis using nonblank by (simp add: t)
qed

theorem handleSend_one_deferred_reply_witness:
  "trim (input (run keepUnicode [ChatInput (js ''how'')] initialPage)) \<noteq> [] \<and>
   selectorLog (run keepUnicode [Elapse 100, ChatInput (js ''x''), Elapse 500]
     (handleSend (run keepUnicode [ChatInput (js ''how'')] initialPage))) = [(1, js ''how'')] \<and>
   timers (run keepUnicode [Elapse 100, ChatInput (js ''x''), Elapse 500]
     (handleSend (run keepUnicode [ChatInput (js ''how'')] initialPage))) = []"
proof -
  let ?s = "run keepUnicode [ChatInput (js ''how'')] initialPage"
  let ?s' = "run keepUnicode [Elapse 100, ChatInput (js ''x''), Elapse 500] (handleSend ?s)"
  have s: "input ?s = js ''how''" "now ?s = 0" "nextTimerId ?s = 1" "timers ?s = []"
    "selectorLog ?s = []"
    by (simp_all add: run_def initialPage_def)
  have h: "trim (input ?s) \<noteq> []"
    by (subst s(1)) (simp add: trim_def js_def isWhiteSpace_def)
  have n: "now ?s' = 600"
    by (simp add: run_def initialPage_def)
  have ids: "\<forall>x \<in> set (timers ?s'). timerId x = 1"
    using h by (simp add: run_def initialPage_def)
  have log: "\<forall>e \<in> set (selectorLog ?s'). fst e = 1"
    using h by (simp add: run_def initialPage_def elapse_selectorLog logged_def)
  from handleSend_one_deferred_reply [OF refl h refl refl, of "[Elapse 100, ChatInput (js ''x''), Elapse 500]"]
  have "filter (\<lambda>x. timerId x = 1) (timers ?s') = [] \<and>
        filter (\<lambda>e. fst e = 1) (selectorLog ?s') = [(1, js ''how'')]"
    by (simp add: n s)
  moreover have "filter (\<lambda>x. timerId x = 1) (timers ?s') = timers ?s'"
    using ids by (simp only: filter_True)
  moreover have "filter (\<lambda>e. fst e = 1) (selectorLog ?s') = selectorLog ?s'"
    using log by (simp only: filter_True)
  ultimately show ?thesis using h by simp
qed

text \<open>
  C9.  \<^verbatim>\<open>handleSubmit\<close> sends nothing anywhere: it writes a line to the console, sets
  all five fields of the form to the empty string, shows the toast and schedules the
  callback that hides it 3000 ms later.  The state of the chatbot, the theme and the
  selector log are as they were.  The callback, when it runs, writes a line to the
  console and hides the toast, and changes nothing else.  And whatever events follow
  the submission, the toast is hidden when the 3000 ms run out.  (It may be hidden
  earlier, by its \<^verbatim>\<open>onClose\<close> or by the callback of an earlier submission.)
\<close>

theorem handleSubmit_resets_and_toasts:
  "formData (handleSubmit s) =
     \<lparr>name = [], email = [], company = [], licenseType = [], message = []\<rparr> \<and>
   showToast (handleSubmit s) \<and>
   timers (handleSubmit s) =
     timers s @ [\<lparr>timerId = nextTimerId s, due = now s + 3000, callback = HideToast\<rparr>] \<and>
   isOpen (handleSubmit s) = isOpen s \<and> messages (handleSubmit s) = messages s \<and>
   input (handleSubmit s) = input s \<and> theme (handleSubmit s) = theme s \<and>
   selectorLog (handleSubmit s) = selectorLog s \<and>
   runCallback U \<lparr>timerId = i, due = n, callback = HideToast\<rparr> p =
     p\<lparr>console := console p @ [''Hiding success toast''], showToast := False\<rparr> \<and>
   (now (run U es (handleSubmit s)) < now s + 3000 \<and>
    now s + 3000 \<le> now (run U es (handleSubmit s)) + d \<longrightarrow>
      \<not> showToast (elapse U d (run U es (handleSubmit s))))"
proof -
  let ?t = "\<lparr>timerId = nextTimerId s, due = now s + 3000, callback = HideToast\<rparr>"
  let ?r = "run U es (handleSubmit s)"
  have "?t \<in> set (timers (handleSubmit s)) \<or> due ?t \<le> now (handleSubmit s)" by simp
  then have "?t \<in> set (timers ?r) \<or> due ?t \<le> now ?r"
    by (rule pending_run)
  then have "now ?r < now s + 3000 \<Longrightarrow> ?t \<in> set (timers ?r)"
    by auto
  then have "now ?r < now s + 3000 \<Longrightarrow> now s + 3000 \<le> now ?r + d \<Longrightarrow>
      \<not> showToast (elapse U d ?r)"
    using hide_elapse [of ?t ?r d U] by simp
  then show ?thesis
    by (auto simp: emptyForm_def runCallback.simps)
qed

theorem handleSubmit_resets_and_toasts_witness:
  "now (run keepUnicode [Elapse 1000, ToastClose, FormSubmit, Elapse 1500]
          (handleSubmit initialPage)) < now initialPage + 3000 \<and>
   now initialPage + 3000 \<le>
     now (run keepUnicode [Elapse 1000, ToastClose, FormSubmit, Elapse 1500]
            (handleSubmit initialPage)) + 500 \<and>
   showToast (run keepUnicode [Elapse 1000, ToastClose, FormSubmit, Elapse 1500]
                (handleSubmit initialPage)) \<and>
   \<not> showToast (elapse keepUnicode 500
       (run keepUnicode [Elapse 1000, ToastClose, FormSubmit, Elapse 1500]
          (handleSubmit initialPage)))"
proof -
  let ?r = "run keepUnicode [Elapse 1000, ToastClose, FormSubmit, Elapse 1500]
              (handleSubmit initialPage)"
  have i: "now initialPage = 0" "timers initialPage = []" "nextTimerId initialPage = 1"
    by (simp_all add: initialPage_def)
  have n: "now ?r = 2500"
    by (simp add: run_def i)
  have shown: "showToast ?r"
    by (auto simp: run_def i elapse_showToast)
  have "now ?r < now initialPage + 3000 \<and> now initialPage + 3000 \<le> now ?r + 500"
    by (simp add: n i)
  with handleSubmit_resets_and_toasts
         [of initialPage keepUnicode 0 0 initialPage
             "[Elapse 1000, ToastClose, FormSubmit, Elapse 1500]" 500]
  have "\<not> showToast (elapse keepUnicode 500 ?r)" by blast
  with shown show ?thesis by (simp add: n i)
qed

text \<open>
  C10.  The theme starts as \<^verbatim>\<open>'light'\<close>, and in every state the page can reach it is
  \<^verbatim>\<open>'light'\<close> or \<^verbatim>\<open>'dark'\<close>.  \<^verbatim>\<open>toggleTheme\<close> turns \<^verbatim>\<open>'light'\<close> into \<^verbatim>\<open>'dark'\<close> and
  \<^verbatim>\<open>'dark'\<close> into \<^verbatim>\<open>'light'\<close>, and in every reachable state two toggles give the
  state back.
\<close>

theorem theme_toggle_involution:
  "theme initialPage = js ''light'' \<and>
   theme (run U es initialPage) \<in> {js ''light'', js ''dark''} \<and>
   theme (toggleTheme (s\<lparr>theme := js ''light''\<rparr>)) = js ''dark'' \<and>
   theme (toggleTheme (s\<lparr>theme := js ''dark''\<rparr>)) = js ''light'' \<and>
   toggleTheme (toggleTheme (run U es initialPage)) = run U es initialPage"
proof -
  have i: "theme initialPage \<in> {js ''light'', js ''dark''}" by (simp add: initialPage_def)
  have r: "theme (run U es initialPage) \<in> {js ''light'', js ''dark''}" by (rule theme_run [OF i])
  show ?thesis using r toggleTheme_twice [OF r]
    by (simp add: initialPage_def toggleTheme_def light_neq_dark)
qed

end
